theory Spec2Isabelle
  imports Main
begin

section \<open>Data model\<close>

text \<open>
  The sender-pattern engine of \<^verbatim>\<open>src/app/api/ai/analyze-sender-pattern/route.ts\<close> and the
  pattern store \<^verbatim>\<open>saveLearnedPattern\<close> / \<^verbatim>\<open>saveLearnedPatterns\<close> (module
  \<^verbatim>\<open>rule/learned-patterns\<close>). Database tables are lists of rows; a Prisma
  \<^verbatim>\<open>findUnique\<close> is \<^const>\<open>List.find\<close> on the unique key and an \<^verbatim>\<open>upsert\<close> updates the
  first row with the key or appends the created row. Storage operations are taken to
  succeed; the mail provider, the credential refresh and the classifier may throw.
\<close>

type_synonym exn = string

text \<open>
  Modelled from the spec: the enumeration \<^verbatim>\<open>GroupItemType\<close> is declared in the database
  schema, which is not part of the sources. \<^verbatim>\<open>FROM\<close> ("sender address match") is the member
  the code names; the spec says that other kinds exist.
\<close>

datatype GroupItemType = FROM | OTHER string

record newsletter =
  nl_email :: string
  nl_emailAccountId :: string
  patternAnalyzed :: bool
  lastAnalyzedAt :: "nat option"

record account =
  access_token :: "string option"
  refresh_token :: "string option"
  expires_at :: "nat option"

record rule =
  rule_id :: string
  rule_name :: string
  rule_emailAccountId :: string
  rule_enabled :: bool
  rule_instructions :: "string option"
  rule_groupId :: "nat option"

record emailAccount =
  ea_id :: string
  ea_about :: "string option"
  ea_account :: "account option"

record group =
  group_id :: nat
  group_emailAccountId :: string
  group_name :: string

record groupItem =
  gi_groupId :: nat
  gi_type :: GroupItemType
  gi_value :: string
  gi_exclude :: bool

record db =
  emailAccounts :: "emailAccount list"
  newsletters :: "newsletter list"
  rules :: "rule list"
  groups :: "group list"
  groupItems :: "groupItem list"

text \<open>The result of \<^verbatim>\<open>getEmailAccountWithRules\<close>: the selected fields and the rules.\<close>

record emailAccountWithRules =
  ewr_id :: string
  ewr_about :: "string option"
  ewr_account :: "account option"
  ewr_rules :: "rule list"

record message =
  headers_from :: string
  msg_content :: string

record threadWithMessages =
  threadId :: string
  messages :: "message list"

record pattern =
  pat_type :: GroupItemType
  pat_value :: string
  pat_exclude :: "bool option"

record body =
  body_emailAccountId :: string
  body_from :: string

text \<open>
  Everything the engine does outside the database is recorded as an event: log lines and
  the calls to the credential refresh, the mail provider and the classifier.
\<close>

datatype event =
    LogTrace string
  | LogInfo string
  | LogError string
  | CallGmailClient string
  | CallGetThreads string nat
  | CallGetThreadMessages string
  | CallAiDetect

datatype response =
    Processing
  | InvalidApiKey
  | SuccessTrue
  | SuccessFalse404
  | FailedToDetectPattern500

text \<open>
  The imported collaborators, whose code is not part of the sources, are parameters. Each
  call that goes to the network returns a value or throws.
\<close>

record env =
  extractEmailAddress :: "string \<Rightarrow> string"
  getGmailClientWithRefresh :: "account \<Rightarrow> string \<Rightarrow> exn + unit"
  getThreads :: "string \<Rightarrow> nat \<Rightarrow> exn + string list"
  getThreadMessages :: "string \<Rightarrow> exn + message list"
  aiDetectRecurringPattern ::
    "message list \<Rightarrow> emailAccountWithRules \<Rightarrow> (string \<times> string) list \<Rightarrow> exn + string option option"

section \<open>Storage operations\<close>

fun upsert :: "('r \<Rightarrow> bool) \<Rightarrow> ('r \<Rightarrow> 'r) \<Rightarrow> 'r \<Rightarrow> 'r list \<Rightarrow> 'r list" where
  "upsert P upd new [] = [new]"
| "upsert P upd new (r # rs) = (if P r then upd r # rs else r # upsert P upd new rs)"

text \<open>JavaScript truthiness of a nullable string: neither null nor empty.\<close>

definition truthy :: "string option \<Rightarrow> bool" where
  "truthy s = (case s of None \<Rightarrow> False | Some t \<Rightarrow> t \<noteq> [])"

definition getEmailAccountWithRules :: "db \<Rightarrow> string \<Rightarrow> emailAccountWithRules option" where
  "getEmailAccountWithRules d emailAccountId =
     (case List.find (\<lambda>a. ea_id a = emailAccountId) (emailAccounts d) of
        None \<Rightarrow> None
      | Some a \<Rightarrow> Some \<lparr> ewr_id = ea_id a, ewr_about = ea_about a, ewr_account = ea_account a,
          ewr_rules = filter (\<lambda>r. rule_emailAccountId r = ea_id a \<and> rule_enabled r
                                   \<and> rule_instructions r \<noteq> None) (rules d) \<rparr>)"

definition newsletter_findUnique :: "db \<Rightarrow> string \<Rightarrow> string \<Rightarrow> newsletter option" where
  "newsletter_findUnique d email emailAccountId =
     List.find (\<lambda>n. nl_email n = email \<and> nl_emailAccountId n = emailAccountId) (newsletters d)"

definition rule_findUnique :: "db \<Rightarrow> string \<Rightarrow> string \<Rightarrow> rule option" where
  "rule_findUnique d name emailAccountId =
     List.find (\<lambda>r. rule_name r = name \<and> rule_emailAccountId r = emailAccountId) (rules d)"

definition groupItem_findUnique :: "db \<Rightarrow> nat \<Rightarrow> GroupItemType \<Rightarrow> string \<Rightarrow> groupItem option" where
  "groupItem_findUnique d g t v =
     List.find (\<lambda>i. gi_groupId i = g \<and> gi_type i = t \<and> gi_value i = v) (groupItems d)"

text \<open>
  \<^verbatim>\<open>prisma.group.create\<close> with \<^verbatim>\<open>rule: { connect: { id } }\<close>: the store picks an identifier
  that no container has, adds the container and points the rule at it. Container
  identifiers, generated strings in the store, are natural numbers here; a rule without
  container (\<^verbatim>\<open>!groupId\<close>) has \<open>rule_groupId = None\<close>.
\<close>

fun next_group_id :: "group list \<Rightarrow> nat" where
  "next_group_id [] = 0"
| "next_group_id (g # gs) = max (Suc (group_id g)) (next_group_id gs)"

definition group_create :: "db \<Rightarrow> string \<Rightarrow> string \<Rightarrow> string \<Rightarrow> nat \<times> db" where
  "group_create d emailAccountId name ruleId =
     (let g = next_group_id (groups d) in
      (g, d \<lparr> groups := groups d @ [\<lparr> group_id = g, group_emailAccountId = emailAccountId,
                                      group_name = name \<rparr>],
              rules := map (\<lambda>r. if rule_id r = ruleId then r \<lparr> rule_groupId := Some g \<rparr> else r)
                           (rules d) \<rparr>))"

text \<open>
  \<^verbatim>\<open>prisma.groupItem.upsert\<close> on the key \<^verbatim>\<open>groupId_type_value\<close>. A created row without
  an exclude field gets the schema's default, false (the spec's scenario of section 8).
\<close>

definition groupItem_upsert ::
  "db \<Rightarrow> nat \<Rightarrow> GroupItemType \<Rightarrow> string \<Rightarrow> (groupItem \<Rightarrow> groupItem) \<Rightarrow> bool \<Rightarrow> db" where
  "groupItem_upsert d g t v upd excl =
     d \<lparr> groupItems :=
          upsert (\<lambda>i. gi_groupId i = g \<and> gi_type i = t \<and> gi_value i = v) upd
            \<lparr> gi_groupId = g, gi_type = t, gi_value = v, gi_exclude = excl \<rparr> (groupItems d) \<rparr>"

section \<open>Pattern store\<close>

definition saveLearnedPattern :: "db \<Rightarrow> string \<Rightarrow> string \<Rightarrow> string \<Rightarrow> db \<times> event list" where
  "saveLearnedPattern d emailAccountId from ruleName =
     (case rule_findUnique d ruleName emailAccountId of
        None \<Rightarrow> (d, [LogError ''Rule not found''])
      | Some rule \<Rightarrow>
          (let (groupId, d1) =
                 (case rule_groupId rule of
                    None \<Rightarrow> group_create d emailAccountId ruleName (rule_id rule)
                  | Some g \<Rightarrow> (g, d))
           in (groupItem_upsert d1 groupId FROM from (\<lambda>i. i) False, [])))"

fun saveLearnedPatterns_loop :: "db \<Rightarrow> nat \<Rightarrow> pattern list \<Rightarrow> db" where
  "saveLearnedPatterns_loop d groupId [] = d"
| "saveLearnedPatterns_loop d groupId (p # ps) =
     (let e = (case pat_exclude p of None \<Rightarrow> False | Some b \<Rightarrow> b) in
      saveLearnedPatterns_loop
        (groupItem_upsert d groupId (pat_type p) (pat_value p) (\<lambda>i. i \<lparr> gi_exclude := e \<rparr>) e)
        groupId ps)"

definition saveLearnedPatterns :: "db \<Rightarrow> string \<Rightarrow> string \<Rightarrow> pattern list \<Rightarrow> db \<times> event list" where
  "saveLearnedPatterns d emailAccountId ruleName patterns =
     (case rule_findUnique d ruleName emailAccountId of
        None \<Rightarrow> (d, [LogError ''Rule not found''])
      | Some rule \<Rightarrow>
          (let (groupId, d1) =
                 (case rule_groupId rule of
                    None \<Rightarrow> group_create d emailAccountId ruleName (rule_id rule)
                  | Some g \<Rightarrow> (g, d))
           in (saveLearnedPatterns_loop d1 groupId patterns, [])))"

section \<open>Sender analysis\<close>

definition THRESHOLD_EMAILS :: nat where
  "THRESHOLD_EMAILS = 3"

definition MAX_RESULTS :: nat where
  "MAX_RESULTS = 10"

definition savePatternCheck :: "nat \<Rightarrow> db \<Rightarrow> string \<Rightarrow> string \<Rightarrow> db" where
  "savePatternCheck now d emailAccountId from =
     d \<lparr> newsletters :=
          upsert (\<lambda>n. nl_email n = from \<and> nl_emailAccountId n = emailAccountId)
            (\<lambda>n. n \<lparr> patternAnalyzed := True, lastAnalyzedAt := Some now \<rparr>)
            \<lparr> nl_email = from, nl_emailAccountId = emailAccountId, patternAnalyzed = True,
              lastAnalyzedAt = Some now \<rparr>
            (newsletters d) \<rparr>"

text \<open>
  The loop of \<^verbatim>\<open>getThreadsFromSender\<close> over the thread identifiers; \<open>acc\<close> is
  \<^verbatim>\<open>threadsWithMessages\<close>.
\<close>

fun getThreadsFromSender_loop ::
  "env \<Rightarrow> string \<Rightarrow> string list \<Rightarrow> threadWithMessages list
   \<Rightarrow> (exn + threadWithMessages list) \<times> event list" where
  "getThreadsFromSender_loop env from [] acc = (Inr acc, [])"
| "getThreadsFromSender_loop env from (tid # tids) acc =
     (case getThreadMessages env tid of
        Inl e \<Rightarrow> (Inl e, [CallGetThreadMessages tid])
      | Inr msgs \<Rightarrow>
          (let senders = map (\<lambda>msg. extractEmailAddress env (headers_from msg)) msgs;
               hasOtherSenders = list_ex (\<lambda>s. s \<noteq> from) senders
           in if hasOtherSenders
              then (Inr [], [CallGetThreadMessages tid,
                     LogInfo ''Skipping sender pattern detection - conversation detected''])
              else (let (r, ev) = getThreadsFromSender_loop env from tids
                                    (acc @ [\<lparr> threadId = tid, messages = msgs \<rparr>])
                    in (r, CallGetThreadMessages tid # ev))))"

definition getThreadsFromSender ::
  "env \<Rightarrow> string \<Rightarrow> nat \<Rightarrow> (exn + threadWithMessages list) \<times> event list" where
  "getThreadsFromSender env sender maxResults =
     (let from = extractEmailAddress env sender;
          q = ''from:'' @ from @ '' -label:sent -label:draft''
      in case getThreads env q maxResults of
           Inl e \<Rightarrow> (Inl e, [CallGetThreads q maxResults])
         | Inr threads \<Rightarrow>
             (let (r, ev) = getThreadsFromSender_loop env from threads []
              in (r, CallGetThreads q maxResults # ev)))"

text \<open>The \<^verbatim>\<open>catch\<close> block of \<^verbatim>\<open>process\<close>.\<close>

definition process_catch :: "db \<Rightarrow> event list \<Rightarrow> response \<times> db \<times> event list" where
  "process_catch d ev = (FailedToDetectPattern500, d, ev @ [LogError ''Error in pattern match API''])"

text \<open>
  The \<^verbatim>\<open>rules\<close> argument of the classifier call: name and \<^verbatim>\<open>instructions || ""\<close> of each
  rule of the account.
\<close>

definition oracle_rules :: "emailAccountWithRules \<Rightarrow> (string \<times> string) list" where
  "oracle_rules emailAccount =
     map (\<lambda>r. (rule_name r, case rule_instructions r of None \<Rightarrow> [] | Some i \<Rightarrow> i))
         (ewr_rules emailAccount)"

text \<open>Lines 133 to 158 of \<^verbatim>\<open>process\<close>: the classifier, the pattern store, the ledger.\<close>

definition process_detect ::
  "env \<Rightarrow> nat \<Rightarrow> db \<Rightarrow> emailAccountWithRules \<Rightarrow> string \<Rightarrow> string \<Rightarrow> message list
   \<Rightarrow> response \<times> db \<times> event list" where
  "process_detect env now d emailAccount emailAccountId from allMessages =
     (case aiDetectRecurringPattern env allMessages emailAccount (oracle_rules emailAccount) of
        Inl e \<Rightarrow> process_catch d [CallAiDetect]
      | Inr patternResult \<Rightarrow>
          (let (d1, ev1) =
                 (case patternResult of
                    Some (Some matchedRule) \<Rightarrow>
                      if matchedRule \<noteq> []
                      then saveLearnedPattern d emailAccountId from matchedRule
                      else (d, [])
                  | _ \<Rightarrow> (d, []))
           in (SuccessTrue, savePatternCheck now d1 emailAccountId from, CallAiDetect # ev1)))"

text \<open>Lines 106 to 131 of \<^verbatim>\<open>process\<close>: the two early returns on too little mail.\<close>

definition process_threads ::
  "env \<Rightarrow> nat \<Rightarrow> db \<Rightarrow> emailAccountWithRules \<Rightarrow> string \<Rightarrow> string \<Rightarrow> threadWithMessages list
   \<Rightarrow> response \<times> db \<times> event list" where
  "process_threads env now d emailAccount emailAccountId from threadsWithMessages =
     (if length threadsWithMessages = 0
      then (SuccessTrue, d, [LogInfo ''No threads found from this sender''])
      else
        (let allMessages = concat (map messages threadsWithMessages)
         in if length allMessages < THRESHOLD_EMAILS
            then (SuccessTrue, d, [LogInfo ''Not enough emails found from this sender''])
            else process_detect env now d emailAccount emailAccountId from allMessages))"

text \<open>Events that happened before a later stage are put in front of that stage's events.\<close>

definition after_events ::
  "event list \<Rightarrow> response \<times> db \<times> event list \<Rightarrow> response \<times> db \<times> event list" where
  "after_events ev r = (case r of (resp, d, ev') \<Rightarrow> (resp, d, ev @ ev'))"

definition process :: "env \<Rightarrow> nat \<Rightarrow> db \<Rightarrow> string \<Rightarrow> string \<Rightarrow> response \<times> db \<times> event list" where
  "process env now d emailAccountId from =
     (case getEmailAccountWithRules d emailAccountId of
        None \<Rightarrow> (SuccessFalse404, d, [LogError ''Email account not found''])
      | Some emailAccount \<Rightarrow>
          (let existingCheck =
                 newsletter_findUnique d (extractEmailAddress env from) (ewr_id emailAccount)
           in if (case existingCheck of None \<Rightarrow> False | Some c \<Rightarrow> patternAnalyzed c)
              then (SuccessTrue, d, [LogInfo ''Sender has already been analyzed''])
              else
                (case ewr_account emailAccount of
                   None \<Rightarrow> (SuccessFalse404, d, [LogError ''No Gmail account found''])
                 | Some account \<Rightarrow>
                     if \<not> truthy (access_token account) \<or> \<not> truthy (refresh_token account)
                     then (SuccessFalse404, d, [LogError ''No Gmail account found''])
                     else
                       (case getGmailClientWithRefresh env account emailAccountId of
                          Inl e \<Rightarrow> process_catch d [CallGmailClient emailAccountId]
                        | Inr gmail \<Rightarrow>
                            (case getThreadsFromSender env from MAX_RESULTS of
                               (Inl e, ev) \<Rightarrow> process_catch d (CallGmailClient emailAccountId # ev)
                             | (Inr threadsWithMessages, ev) \<Rightarrow>
                                 after_events (CallGmailClient emailAccountId # ev)
                                   (process_threads env now d emailAccount emailAccountId from
                                      threadsWithMessages))))))"

text \<open>
  The request handler, from the parsed request body on: the reply is sent at once and
  \<^verbatim>\<open>process\<close> runs afterwards; its own response is dropped.
\<close>

definition POST :: "env \<Rightarrow> nat \<Rightarrow> db \<Rightarrow> bool \<Rightarrow> body \<Rightarrow> response \<times> db \<times> event list" where
  "POST env now d isValidInternalApiKey data =
     (if \<not> isValidInternalApiKey then (InvalidApiKey, d, [LogError ''Invalid API key''])
      else
        (let emailAccountId = body_emailAccountId data;
             from = extractEmailAddress env (body_from data);
             (r, d', ev) = process env now d emailAccountId from
         in (Processing, d', LogTrace ''Analyzing sender pattern'' # ev)))"

section \<open>Runs as sequences of storage calls\<close>

text \<open>
  What \<^verbatim>\<open>process\<close> does between its two reads of the database and its writes: the
  credentials, the mail provider and the classifier. It ends the run with a response, or
  goes on to the writes with the rule the classifier matched, if any.
\<close>

definition process_fetch ::
  "env \<Rightarrow> emailAccountWithRules \<Rightarrow> string \<Rightarrow> string \<Rightarrow> response + string option" where
  "process_fetch env emailAccount emailAccountId from =
     (case ewr_account emailAccount of
        None \<Rightarrow> Inl SuccessFalse404
      | Some account \<Rightarrow>
          if \<not> truthy (access_token account) \<or> \<not> truthy (refresh_token account)
          then Inl SuccessFalse404
          else
            (case getGmailClientWithRefresh env account emailAccountId of
               Inl e \<Rightarrow> Inl FailedToDetectPattern500
             | Inr gmail \<Rightarrow>
                 (case fst (getThreadsFromSender env from MAX_RESULTS) of
                    Inl e \<Rightarrow> Inl FailedToDetectPattern500
                  | Inr threadsWithMessages \<Rightarrow>
                      if length threadsWithMessages = 0 then Inl SuccessTrue
                      else
                        (let allMessages = concat (map messages threadsWithMessages)
                         in if length allMessages < THRESHOLD_EMAILS then Inl SuccessTrue
                            else
                              (case aiDetectRecurringPattern env allMessages emailAccount
                                      (oracle_rules emailAccount) of
                                 Inl e \<Rightarrow> Inl FailedToDetectPattern500
                               | Inr patternResult \<Rightarrow>
                                   Inr (case patternResult of
                                          Some (Some matchedRule) \<Rightarrow>
                                            if matchedRule \<noteq> [] then Some matchedRule else None
                                        | _ \<Rightarrow> None))))))"

text \<open>
  A run of \<^verbatim>\<open>process\<close> as a sequence of storage calls: every \<^verbatim>\<open>await prisma...\<close> of
  \<^verbatim>\<open>process\<close>, \<^verbatim>\<open>saveLearnedPattern\<close> and \<^verbatim>\<open>savePatternCheck\<close> is one step, and the state
  of a run says which call comes next and what the run holds in its local variables.
\<close>

datatype run_state =
    AtAccount
  | AtExistingCheck emailAccountWithRules
  | AtRuleFind string
  | AtGroupCreate rule string
  | AtGroupItemUpsert nat
  | AtSavePatternCheck
  | Returned response

fun step :: "env \<Rightarrow> nat \<Rightarrow> string \<Rightarrow> string \<Rightarrow> run_state \<Rightarrow> db \<Rightarrow> run_state \<times> db" where
  "step env now emailAccountId from AtAccount d =
     (case getEmailAccountWithRules d emailAccountId of
        None \<Rightarrow> (Returned SuccessFalse404, d)
      | Some emailAccount \<Rightarrow> (AtExistingCheck emailAccount, d))"
| "step env now emailAccountId from (AtExistingCheck emailAccount) d =
     (if (case newsletter_findUnique d (extractEmailAddress env from) (ewr_id emailAccount) of
            None \<Rightarrow> False | Some c \<Rightarrow> patternAnalyzed c)
      then (Returned SuccessTrue, d)
      else (case process_fetch env emailAccount emailAccountId from of
              Inl r \<Rightarrow> (Returned r, d)
            | Inr None \<Rightarrow> (AtSavePatternCheck, d)
            | Inr (Some matchedRule) \<Rightarrow> (AtRuleFind matchedRule, d)))"
| "step env now emailAccountId from (AtRuleFind ruleName) d =
     (case rule_findUnique d ruleName emailAccountId of
        None \<Rightarrow> (AtSavePatternCheck, d)
      | Some rule \<Rightarrow>
          (case rule_groupId rule of
             None \<Rightarrow> (AtGroupCreate rule ruleName, d)
           | Some g \<Rightarrow> (AtGroupItemUpsert g, d)))"
| "step env now emailAccountId from (AtGroupCreate rule ruleName) d =
     (let (groupId, d1) = group_create d emailAccountId ruleName (rule_id rule)
      in (AtGroupItemUpsert groupId, d1))"
| "step env now emailAccountId from (AtGroupItemUpsert groupId) d =
     (AtSavePatternCheck, groupItem_upsert d groupId FROM from (\<lambda>i. i) False)"
| "step env now emailAccountId from AtSavePatternCheck d =
     (Returned SuccessTrue, savePatternCheck now d emailAccountId from)"
| "step env now emailAccountId from (Returned r) d = (Returned r, d)"

text \<open>One run on its own, for a number of steps.\<close>

fun steps :: "nat \<Rightarrow> env \<Rightarrow> nat \<Rightarrow> string \<Rightarrow> string \<Rightarrow> run_state \<times> db \<Rightarrow> run_state \<times> db" where
  "steps 0 env now emailAccountId from c = c"
| "steps (Suc n) env now emailAccountId from c =
     steps n env now emailAccountId from (step env now emailAccountId from (fst c) (snd c))"


section \<open>The normalizer of the spec\<close>

text \<open>
  Modelled from the spec: \<^verbatim>\<open>extractEmailAddress\<close> of \<^verbatim>\<open>utils/email\<close> is not part of the
  sources. The spec says that it normalizes to a bare address, "strip display
  name/angle brackets": the text between the first \<open><\<close> and the next \<open>>\<close>, and the input
  itself when it has no such pair.
\<close>

definition extractEmailAddress_spec :: "string \<Rightarrow> string" where
  "extractEmailAddress_spec s =
     (let rest = dropWhile (\<lambda>c. c \<noteq> CHR ''<'') s
      in if rest \<noteq> [] \<and> CHR ''>'' \<in> set (tl rest)
         then takeWhile (\<lambda>c. c \<noteq> CHR ''>'') (tl rest)
         else s)"

section \<open>Example data\<close>

text \<open>
  Account \<open>A\<close> with credentials and one rule, "Newsletters"; a mailbox with three
  threads of \<open>news@example.com\<close>, the third of which holds a reply by somebody else.
\<close>

definition ex_account :: account where
  "ex_account = \<lparr> access_token = Some ''at'', refresh_token = Some ''rt'', expires_at = None \<rparr>"

definition ex_rule :: "nat option \<Rightarrow> rule" where
  "ex_rule g = \<lparr> rule_id = ''r1'', rule_name = ''Newsletters'', rule_emailAccountId = ''A'',
                 rule_enabled = True, rule_instructions = Some ''Newsletters and digests'',
                 rule_groupId = g \<rparr>"

definition ex_db :: db where
  "ex_db = \<lparr> emailAccounts = [\<lparr> ea_id = ''A'', ea_about = None, ea_account = Some ex_account \<rparr>],
             newsletters = [],
             rules = [ex_rule None],
             groups = [],
             groupItems = [] \<rparr>"

text \<open>What \<^verbatim>\<open>getEmailAccountWithRules\<close> selects for account \<open>A\<close> in the example.\<close>

definition ex_ewr :: emailAccountWithRules where
  "ex_ewr = \<lparr> ewr_id = ''A'', ewr_about = None, ewr_account = Some ex_account,
              ewr_rules = [ex_rule None] \<rparr>"

definition ex_row :: "nat \<Rightarrow> newsletter" where
  "ex_row t = \<lparr> nl_email = ''news@example.com'', nl_emailAccountId = ''A'',
                patternAnalyzed = True, lastAnalyzedAt = Some t \<rparr>"

definition ex_db_analyzed :: db where
  "ex_db_analyzed = ex_db \<lparr> newsletters := [ex_row 5] \<rparr>"

definition ex_msg :: "string \<Rightarrow> string \<Rightarrow> message" where
  "ex_msg sender text = \<lparr> headers_from = sender, msg_content = text \<rparr>"

definition ex_t1 :: threadWithMessages where
  "ex_t1 = \<lparr> threadId = ''t1'', messages = [ex_msg ''news@example.com'' ''issue 1'',
                                             ex_msg ''news@example.com'' ''issue 2''] \<rparr>"

definition ex_t2 :: threadWithMessages where
  "ex_t2 = \<lparr> threadId = ''t2'', messages = [ex_msg ''news@example.com'' ''issue 3''] \<rparr>"

definition ex_t3 :: threadWithMessages where
  "ex_t3 = \<lparr> threadId = ''t3'', messages = [ex_msg ''news@example.com'' ''issue 4'',
                                             ex_msg ''bob@example.com'' ''thanks''] \<rparr>"

definition ex_messages :: "string \<Rightarrow> exn + message list" where
  "ex_messages tid =
     (if tid = ''t1'' then Inr (messages ex_t1)
      else if tid = ''t2'' then Inr (messages ex_t2)
      else if tid = ''t3'' then Inr (messages ex_t3)
      else Inl ''no such thread'')"

text \<open>
  The example collaborators: the mailbox lists the given threads for the sender's query,
  the classifier answers \<open>verdict\<close>, and addresses are already bare.
\<close>

definition ex_env :: "string list \<Rightarrow> string option option \<Rightarrow> env" where
  "ex_env tids verdict =
     \<lparr> extractEmailAddress = (\<lambda>s. s),
       getGmailClientWithRefresh = (\<lambda>account emailAccountId. Inr ()),
       getThreads = (\<lambda>q maxResults.
          if q = ''from:news@example.com -label:sent -label:draft''
          then Inr (take maxResults tids) else Inr []),
       getThreadMessages = ex_messages,
       aiDetectRecurringPattern = (\<lambda>emails emailAccount rules. Inr verdict) \<rparr>"

text \<open>The example account once the pattern is stored, with the given exclude flag.\<close>

definition ex_item :: "bool \<Rightarrow> groupItem" where
  "ex_item e = \<lparr> gi_groupId = 0, gi_type = FROM, gi_value = ''news@example.com'',
                 gi_exclude = e \<rparr>"

definition ex_db_stored :: "bool \<Rightarrow> db" where
  "ex_db_stored e = ex_db
     \<lparr> rules := [ex_rule (Some 0)],
       groups := [\<lparr> group_id = 0, group_emailAccountId = ''A'', group_name = ''Newsletters'' \<rparr>],
       groupItems := [ex_item e] \<rparr>"

text \<open>The example database with two containers named after the rule.\<close>

definition ex_db_raced :: db where
  "ex_db_raced = ex_db
     \<lparr> newsletters := [ex_row 9],
       rules := [ex_rule (Some 1)],
       groups := [\<lparr> group_id = 0, group_emailAccountId = ''A'', group_name = ''Newsletters'' \<rparr>,
                  \<lparr> group_id = 1, group_emailAccountId = ''A'', group_name = ''Newsletters'' \<rparr>],
       groupItems := [ex_item False, ex_item False \<lparr> gi_groupId := 1 \<rparr>] \<rparr>"

section \<open>Storage lemmas\<close>

lemma find_upsert_same:
  assumes "P new" and "\<And>r. P r \<Longrightarrow> P (upd r)"
  shows "List.find P (upsert P upd new xs)
         = Some (case List.find P xs of None \<Rightarrow> new | Some r \<Rightarrow> upd r)"
  using assms by (induction xs) auto

lemma find_upsert_other:
  assumes "\<not> Q new" and "\<And>r. P r \<Longrightarrow> \<not> Q r" and "\<And>r. P r \<Longrightarrow> \<not> Q (upd r)"
  shows "List.find Q (upsert P upd new xs) = List.find Q xs"
  using assms by (induction xs) auto

lemma upsert_id_existing: "\<exists>x\<in>set xs. P x \<Longrightarrow> upsert P (\<lambda>i. i) new xs = xs"
  by (induction xs) auto

lemma upsert_id_twice:
  "P new \<Longrightarrow> upsert P (\<lambda>i. i) new (upsert P (\<lambda>i. i) new xs) = upsert P (\<lambda>i. i) new xs"
  by (induction xs) auto

lemma filter_upsert_length:
  assumes "P new" and "\<And>r. P r \<Longrightarrow> P (upd r)"
  shows "length (filter P (upsert P upd new xs))
         = (if \<exists>x\<in>set xs. P x then length (filter P xs) else 1)"
  using assms by (induction xs) auto

lemma next_group_id_fresh: "g \<in> set gs \<Longrightarrow> group_id g < next_group_id gs"
  by (induction gs) auto

lemma distinct_key_filter_le1:
  "distinct (map f xs) \<Longrightarrow> length (filter (\<lambda>x. f x = k) xs) \<le> 1"
proof (induction xs)
  case Nil
  then show ?case by simp
next
  case (Cons a xs)
  show ?case
  proof (cases "f a = k")
    case True
    with Cons.prems have "\<forall>x\<in>set xs. f x \<noteq> k" by (auto simp: image_iff)
    then have "filter (\<lambda>x. f x = k) xs = []" by (simp add: filter_empty_conv)
    with True show ?thesis by simp
  next
    case False
    with Cons show ?thesis by simp
  qed
qed

section \<open>The conversation filter\<close>

lemma loop_conversation:
  assumes "\<forall>t\<in>set tids. \<exists>ms. getThreadMessages env t = Inr ms"
    and "\<exists>t\<in>set tids. \<exists>ms. getThreadMessages env t = Inr ms
           \<and> (\<exists>m\<in>set ms. extractEmailAddress env (headers_from m) \<noteq> from)"
  shows "fst (getThreadsFromSender_loop env from tids acc) = Inr []"
  using assms
proof (induction tids arbitrary: acc)
  case Nil
  then show ?case by simp
next
  case (Cons tid tids)
  then obtain ms where ms: "getThreadMessages env tid = Inr ms" by auto
  show ?case
  proof (cases "\<exists>m\<in>set ms. extractEmailAddress env (headers_from m) \<noteq> from")
    case True
    with ms show ?thesis by (auto simp: list_ex_iff)
  next
    case False
    with Cons.prems ms have
      "\<exists>t\<in>set tids. \<exists>ms. getThreadMessages env t = Inr ms
           \<and> (\<exists>m\<in>set ms. extractEmailAddress env (headers_from m) \<noteq> from)"
      by auto
    moreover from Cons.prems have "\<forall>t\<in>set tids. \<exists>ms. getThreadMessages env t = Inr ms"
      by simp
    ultimately have "fst (getThreadsFromSender_loop env from tids
                       (acc @ [\<lparr> threadId = tid, messages = ms \<rparr>])) = Inr []"
      by (rule Cons.IH[rotated])
    with ms False show ?thesis by (auto simp: list_ex_iff split: prod.splits)
  qed
qed

lemma loop_one_way:
  assumes "fst (getThreadsFromSender_loop env from tids acc) = Inr ts"
    and "\<forall>t\<in>set acc. \<forall>m\<in>set (messages t). extractEmailAddress env (headers_from m) = from"
  shows "\<forall>t\<in>set ts. \<forall>m\<in>set (messages t). extractEmailAddress env (headers_from m) = from"
  using assms
proof (induction tids arbitrary: acc)
  case Nil
  then show ?case by simp
next
  case (Cons tid tids)
  show ?case
  proof (cases "getThreadMessages env tid")
    case (Inl e)
    with Cons.prems show ?thesis by simp
  next
    case (Inr ms)
    show ?thesis
    proof (cases "\<exists>m\<in>set ms. extractEmailAddress env (headers_from m) \<noteq> from")
      case True
      with Inr Cons.prems(1) have "ts = []" by (auto simp: list_ex_iff)
      then show ?thesis by simp
    next
      case False
      with Inr Cons.prems(1) have
        "fst (getThreadsFromSender_loop env from tids
                (acc @ [\<lparr> threadId = tid, messages = ms \<rparr>])) = Inr ts"
        by (auto simp: list_ex_iff split: prod.splits)
      moreover from False Cons.prems(2) have
        "\<forall>t\<in>set (acc @ [\<lparr> threadId = tid, messages = ms \<rparr>]). \<forall>m\<in>set (messages t).
            extractEmailAddress env (headers_from m) = from"
        by auto
      ultimately show ?thesis by (rule Cons.IH)
    qed
  qed
qed

lemma loop_no_oracle:
  "getThreadsFromSender_loop env from tids acc = (r, ev) \<Longrightarrow> CallAiDetect \<notin> set ev"
proof (induction tids arbitrary: acc r ev)
  case Nil
  then show ?case by simp
next
  case (Cons tid tids)
  show ?case
  proof (cases "getThreadMessages env tid")
    case (Inl e)
    with Cons.prems show ?thesis by auto
  next
    case (Inr ms)
    obtain r' ev' where rec:
      "getThreadsFromSender_loop env from tids (acc @ [\<lparr> threadId = tid, messages = ms \<rparr>])
       = (r', ev')"
      by (cases "getThreadsFromSender_loop env from tids
                   (acc @ [\<lparr> threadId = tid, messages = ms \<rparr>])")
    from Cons.IH[OF rec] have "CallAiDetect \<notin> set ev'" .
    with Cons.prems Inr rec show ?thesis
      by (auto simp: Let_def split: if_splits)
  qed
qed

lemma getThreadsFromSender_no_oracle:
  "getThreadsFromSender env sender n = (r, ev) \<Longrightarrow> CallAiDetect \<notin> set ev"
  by (auto simp: getThreadsFromSender_def Let_def split: sum.splits prod.splits
           dest: loop_no_oracle)

lemma getThreadsFromSender_fst:
  "fst (getThreadsFromSender env sender n) =
     (case getThreads env
             (''from:'' @ extractEmailAddress env sender @ '' -label:sent -label:draft'') n of
        Inl e \<Rightarrow> Inl e
      | Inr tids \<Rightarrow> fst (getThreadsFromSender_loop env (extractEmailAddress env sender) tids []))"
  by (simp add: getThreadsFromSender_def Let_def split: sum.splits prod.splits)

section \<open>The stages of the background process\<close>

lemma after_events_simps:
  "fst (after_events ev r) = fst r"
  "fst (snd (after_events ev r)) = fst (snd r)"
  "snd (snd (after_events ev r)) = ev @ snd (snd r)"
  by (cases r; simp add: after_events_def)+

lemma process_threads_insufficient:
  assumes "ts = [] \<or> length (concat (map messages ts)) < THRESHOLD_EMAILS"
  shows "fst (process_threads env now d ea a from ts) = SuccessTrue"
    and "fst (snd (process_threads env now d ea a from ts)) = d"
    and "CallAiDetect \<notin> set (snd (snd (process_threads env now d ea a from ts)))"
  using assms by (auto simp: process_threads_def Let_def)

lemma process_no_threads:
  assumes "fst (getThreadsFromSender env from MAX_RESULTS) = Inr ts"
    and "ts = [] \<or> length (concat (map messages ts)) < THRESHOLD_EMAILS"
  shows "fst (snd (process env now d a from)) = d
         \<and> CallAiDetect \<notin> set (snd (snd (process env now d a from)))"
proof -
  obtain ev where ev: "getThreadsFromSender env from MAX_RESULTS = (Inr ts, ev)"
    using assms(1) by (cases "getThreadsFromSender env from MAX_RESULTS") auto
  have no: "CallAiDetect \<notin> set ev"
    using getThreadsFromSender_no_oracle[OF ev] .
  note pt = process_threads_insufficient(2,3)[OF assms(2)]
  show ?thesis
    using no
    by (simp add: process_def process_catch_def after_events_simps Let_def ev pt
             split: option.splits sum.splits)
qed

lemma process_reaches_threads:
  assumes "getEmailAccountWithRules d a = Some ea"
    and "\<not> (case newsletter_findUnique d (extractEmailAddress env from) (ewr_id ea) of
               None \<Rightarrow> False | Some c \<Rightarrow> patternAnalyzed c)"
    and "ewr_account ea = Some acc"
    and "truthy (access_token acc)" and "truthy (refresh_token acc)"
    and "getGmailClientWithRefresh env acc a = Inr u"
    and "getThreadsFromSender env from MAX_RESULTS = (Inr ts, ev)"
  shows "process env now d a from =
           after_events (CallGmailClient a # ev) (process_threads env now d ea a from ts)"
  using assms by (simp add: process_def Let_def)

lemma savePatternCheck_find:
  "\<exists>c. newsletter_findUnique (savePatternCheck now d a from) from a = Some c
       \<and> patternAnalyzed c \<and> lastAnalyzedAt c = Some now"
  by (simp add: newsletter_findUnique_def savePatternCheck_def find_upsert_same
           split: option.splits)

lemma savePatternCheck_frame:
  "groupItems (savePatternCheck now d a from) = groupItems d"
  "groups (savePatternCheck now d a from) = groups d"
  "rules (savePatternCheck now d a from) = rules d"
  "emailAccounts (savePatternCheck now d a from) = emailAccounts d"
  by (simp_all add: savePatternCheck_def)

lemma process_reaches_detect:
  assumes "getEmailAccountWithRules d a = Some ea"
    and "\<not> (case newsletter_findUnique d (extractEmailAddress env from) (ewr_id ea) of
               None \<Rightarrow> False | Some c \<Rightarrow> patternAnalyzed c)"
    and "ewr_account ea = Some acc"
    and "truthy (access_token acc)" and "truthy (refresh_token acc)"
    and "getGmailClientWithRefresh env acc a = Inr u"
    and "getThreadsFromSender env from MAX_RESULTS = (Inr ts, ev)"
    and "ts \<noteq> []" and "3 \<le> length (concat (map messages ts))"
  shows "process env now d a from =
           after_events (CallGmailClient a # ev)
             (process_detect env now d ea a from (concat (map messages ts)))"
  using process_reaches_threads[OF assms(1-7)] assms(8,9)
  by (simp add: process_threads_def THRESHOLD_EMAILS_def Let_def)

lemma process_detect_verdict:
  assumes "aiDetectRecurringPattern env ms ea (oracle_rules ea) = Inr verdict"
  shows "fst (process_detect env now d ea a from ms) = SuccessTrue"
    and "fst (snd (process_detect env now d ea a from ms)) =
           savePatternCheck now
             (case verdict of
                Some (Some r) \<Rightarrow> if r \<noteq> [] then fst (saveLearnedPattern d a from r) else d
              | _ \<Rightarrow> d) a from"
  using assms by (auto simp: process_detect_def split: option.splits prod.splits)

section \<open>The pattern store\<close>

lemma find_map_preserving:
  assumes "\<And>x. P (f x) = P x"
  shows "List.find P (map f xs) = map_option f (List.find P xs)"
  using assms by (induction xs) auto

lemma find_Some_set: "List.find P xs = Some x \<Longrightarrow> x \<in> set xs \<and> P x"
  by (auto simp: find_Some_iff)

lemma saveLearnedPattern_with_group:
  assumes "rule_findUnique d rn a = Some rule" and "rule_groupId rule = Some g"
  shows "saveLearnedPattern d a from rn = (groupItem_upsert d g FROM from (\<lambda>i. i) False, [])"
  using assms by (simp add: saveLearnedPattern_def)

lemma saveLearnedPattern_without_group:
  assumes "rule_findUnique d rn a = Some rule" and "rule_groupId rule = None"
  shows "saveLearnedPattern d a from rn =
           (groupItem_upsert (snd (group_create d a rn (rule_id rule)))
              (next_group_id (groups d)) FROM from (\<lambda>i. i) False, [])"
  using assms by (simp add: saveLearnedPattern_def group_create_def Let_def)

lemma group_create_rule:
  assumes "rule_findUnique d rn a = Some rule"
  shows "rule_findUnique (snd (group_create d a' rn' (rule_id rule))) rn a
         = Some (rule \<lparr> rule_groupId := Some (next_group_id (groups d)) \<rparr>)"
proof -
  let ?f = "\<lambda>r. if rule_id r = rule_id rule
                 then r \<lparr> rule_groupId := Some (next_group_id (groups d)) \<rparr> else r"
  have "List.find (\<lambda>r. rule_name r = rn \<and> rule_emailAccountId r = a) (map ?f (rules d))
        = map_option ?f (List.find (\<lambda>r. rule_name r = rn \<and> rule_emailAccountId r = a) (rules d))"
    by (rule find_map_preserving) simp
  with assms show ?thesis
    by (simp add: rule_findUnique_def group_create_def Let_def)
qed

lemma group_create_frame:
  "groupItems (snd (group_create d a rn rid)) = groupItems d"
  "groups (snd (group_create d a rn rid))
     = groups d @ [\<lparr> group_id = next_group_id (groups d), group_emailAccountId = a,
                     group_name = rn \<rparr>]"
  by (simp_all add: group_create_def Let_def)

lemma groupItem_upsert_frame:
  "rules (groupItem_upsert d g t v upd e) = rules d"
  "groups (groupItem_upsert d g t v upd e) = groups d"
  "newsletters (groupItem_upsert d g t v upd e) = newsletters d"
  "emailAccounts (groupItem_upsert d g t v upd e) = emailAccounts d"
  by (simp_all add: groupItem_upsert_def)

lemma groupItem_upsert_count:
  assumes "distinct (map (\<lambda>i. (gi_groupId i, gi_type i, gi_value i)) (groupItems d))"
  shows "length (filter (\<lambda>i. gi_groupId i = g \<and> gi_type i = t \<and> gi_value i = v)
                   (groupItems (groupItem_upsert d g t v (\<lambda>i. i) e))) = 1"
proof -
  let ?P = "\<lambda>i. gi_groupId i = g \<and> gi_type i = t \<and> gi_value i = v"
  let ?new = "\<lparr> gi_groupId = g, gi_type = t, gi_value = v, gi_exclude = e \<rparr>"
  have eq: "?P = (\<lambda>i. (gi_groupId i, gi_type i, gi_value i) = (g, t, v))" by auto
  have le: "length (filter ?P (groupItems d)) \<le> 1"
    unfolding eq using assms by (rule distinct_key_filter_le1)
  have len: "length (filter ?P (upsert ?P (\<lambda>i. i) ?new (groupItems d)))
        = (if \<exists>x\<in>set (groupItems d). ?P x then length (filter ?P (groupItems d)) else 1)"
    by (rule filter_upsert_length) simp_all
  have "length (filter ?P (upsert ?P (\<lambda>i. i) ?new (groupItems d))) = 1"
  proof (cases "\<exists>x\<in>set (groupItems d). ?P x")
    case True
    then have "filter ?P (groupItems d) \<noteq> []" by (auto simp: filter_empty_conv)
    then have "length (filter ?P (groupItems d)) \<ge> 1"
      by (cases "filter ?P (groupItems d)") simp_all
    with le have "length (filter ?P (groupItems d)) = 1" by simp
    with len True show ?thesis by presburger
  next
    case False
    with len show ?thesis by presburger
  qed
  then show ?thesis by (simp add: groupItem_upsert_def)
qed

lemma groupItem_upsert_id_again:
  "groupItem_upsert (groupItem_upsert d g t v (\<lambda>i. i) e) g t v (\<lambda>i. i) e
   = groupItem_upsert d g t v (\<lambda>i. i) e"
  by (simp add: groupItem_upsert_def upsert_id_twice)

lemma saveLearnedPattern_post:
  assumes "rule_findUnique d rn a = Some rule"
  shows "\<exists>rule' g d0. rule_findUnique (fst (saveLearnedPattern d a from rn)) rn a = Some rule'
           \<and> rule_groupId rule' = Some g
           \<and> fst (saveLearnedPattern d a from rn) = groupItem_upsert d0 g FROM from (\<lambda>i. i) False
           \<and> groupItems d0 = groupItems d
           \<and> (distinct (map group_id (groups d))
                \<longrightarrow> length (filter (\<lambda>x. group_id x = g) (groups d0)) \<le> 1)"
proof (cases "rule_groupId rule")
  case (Some g)
  have 1: "rule_findUnique (fst (saveLearnedPattern d a from rn)) rn a = Some rule"
    using assms Some
    by (simp add: saveLearnedPattern_with_group rule_findUnique_def groupItem_upsert_frame)
  have 2: "fst (saveLearnedPattern d a from rn) = groupItem_upsert d g FROM from (\<lambda>i. i) False"
    using assms Some by (simp add: saveLearnedPattern_with_group)
  have 3: "distinct (map group_id (groups d))
          \<longrightarrow> length (filter (\<lambda>x. group_id x = g) (groups d)) \<le> 1"
    using distinct_key_filter_le1[of group_id "groups d" g] by simp
  from 1 Some 2 3 show ?thesis by blast
next
  case None
  let ?g = "next_group_id (groups d)"
  let ?d0 = "snd (group_create d a rn (rule_id rule))"
  have "filter (\<lambda>x. group_id x = ?g) (groups d) = []"
    by (auto simp: filter_empty_conv dest: next_group_id_fresh)
  then have 3: "length (filter (\<lambda>x. group_id x = ?g) (groups ?d0)) \<le> 1"
    by (simp add: group_create_frame)
  have 2: "fst (saveLearnedPattern d a from rn) = groupItem_upsert ?d0 ?g FROM from (\<lambda>i. i) False"
    using assms None by (simp add: saveLearnedPattern_without_group)
  have 1: "rule_findUnique (fst (saveLearnedPattern d a from rn)) rn a
        = Some (rule \<lparr> rule_groupId := Some ?g \<rparr>)"
    using group_create_rule[OF assms, of a rn]
    by (simp add: 2 rule_findUnique_def groupItem_upsert_frame)
  have 4: "rule_groupId (rule \<lparr> rule_groupId := Some ?g \<rparr>) = Some ?g" by simp
  have 5: "groupItems ?d0 = groupItems d" by (simp add: group_create_frame)
  from 1 4 2 5 3 show ?thesis by blast
qed

lemma saveLearnedPatterns_loop_append:
  "saveLearnedPatterns_loop d g (ps @ qs)
   = saveLearnedPatterns_loop (saveLearnedPatterns_loop d g ps) g qs"
  by (induction ps arbitrary: d) (simp_all add: Let_def)

lemma groupItem_upsert_find_same:
  "groupItem_findUnique (groupItem_upsert d g t v (\<lambda>i. i \<lparr> gi_exclude := e \<rparr>) e) g t v
   = Some (case groupItem_findUnique d g t v of
             None \<Rightarrow> \<lparr> gi_groupId = g, gi_type = t, gi_value = v, gi_exclude = e \<rparr>
           | Some i \<Rightarrow> i \<lparr> gi_exclude := e \<rparr>)"
  unfolding groupItem_findUnique_def groupItem_upsert_def
  by (simp add: find_upsert_same)

lemma groupItem_upsert_find_other:
  assumes "\<not> (t' = t \<and> v' = v)"
  shows "groupItem_findUnique (groupItem_upsert d g t' v' (\<lambda>i. i \<lparr> gi_exclude := e \<rparr>) e) g t v
         = groupItem_findUnique d g t v"
proof -
  have "List.find (\<lambda>i. gi_groupId i = g \<and> gi_type i = t \<and> gi_value i = v)
          (upsert (\<lambda>i. gi_groupId i = g \<and> gi_type i = t' \<and> gi_value i = v')
             (\<lambda>i. i \<lparr> gi_exclude := e \<rparr>)
             \<lparr> gi_groupId = g, gi_type = t', gi_value = v', gi_exclude = e \<rparr> (groupItems d))
        = List.find (\<lambda>i. gi_groupId i = g \<and> gi_type i = t \<and> gi_value i = v) (groupItems d)"
    by (rule find_upsert_other) (use assms in auto)
  then show ?thesis by (simp add: groupItem_findUnique_def groupItem_upsert_def)
qed

lemma saveLearnedPatterns_loop_find_other:
  assumes "\<forall>q\<in>set qs. \<not> (pat_type q = t \<and> pat_value q = v)"
  shows "groupItem_findUnique (saveLearnedPatterns_loop d g qs) g t v = groupItem_findUnique d g t v"
  using assms
  by (induction qs arbitrary: d) (simp_all add: Let_def groupItem_upsert_find_other)

lemma saveLearnedPatterns_loop_keeps_row:
  assumes "groupItem_findUnique d g t v = Some i"
  shows "\<exists>b. groupItem_findUnique (saveLearnedPatterns_loop d g ps) g t v
              = Some (i \<lparr> gi_exclude := b \<rparr>)"
  using assms
proof (induction ps arbitrary: d i)
  case Nil
  then show ?case by (intro exI[of _ "gi_exclude i"]) simp
next
  case (Cons p ps)
  let ?e = "case pat_exclude p of None \<Rightarrow> False | Some b \<Rightarrow> b"
  let ?d' = "groupItem_upsert d g (pat_type p) (pat_value p) (\<lambda>i. i \<lparr> gi_exclude := ?e \<rparr>) ?e"
  show ?case
  proof (cases "pat_type p = t \<and> pat_value p = v")
    case True
    with Cons.prems have "groupItem_findUnique ?d' g t v = Some (i \<lparr> gi_exclude := ?e \<rparr>)"
      by (simp add: groupItem_upsert_find_same)
    from Cons.IH[OF this] show ?thesis by (simp add: Let_def)
  next
    case False
    with Cons.prems have "groupItem_findUnique ?d' g t v = Some i"
      by (simp add: groupItem_upsert_find_other)
    from Cons.IH[OF this] show ?thesis by (simp add: Let_def)
  qed
qed

lemma saveLearnedPatterns_with_group:
  assumes "rule_findUnique d rn a = Some rule" and "rule_groupId rule = Some g"
  shows "saveLearnedPatterns d a rn ps = (saveLearnedPatterns_loop d g ps, [])"
  using assms by (simp add: saveLearnedPatterns_def)

section \<open>The request handler and the normalizer\<close>

lemma extractEmailAddress_spec_display:
  assumes "CHR ''<'' \<notin> set name" and "CHR ''>'' \<notin> set addr"
  shows "extractEmailAddress_spec (name @ ''<'' @ addr @ ''>'') = addr"
proof -
  have n: "\<And>x. x \<in> set name \<Longrightarrow> x \<noteq> CHR ''<''" using assms(1) by auto
  have a: "\<And>x. x \<in> set addr \<Longrightarrow> x \<noteq> CHR ''>''" using assms(2) by auto
  have "dropWhile (\<lambda>c. c \<noteq> CHR ''<'') (name @ ''<'' @ addr @ ''>'')
        = dropWhile (\<lambda>c. c \<noteq> CHR ''<'') (''<'' @ addr @ ''>'')"
    using n by (rule dropWhile_append2)
  then have d: "dropWhile (\<lambda>c. c \<noteq> CHR ''<'') (name @ ''<'' @ addr @ ''>'') = ''<'' @ addr @ ''>''"
    by simp
  have "takeWhile (\<lambda>c. c \<noteq> CHR ''>'') (addr @ ''>'')
        = addr @ takeWhile (\<lambda>c. c \<noteq> CHR ''>'') ''>''"
    using a by (rule takeWhile_append2)
  then have t: "takeWhile (\<lambda>c. c \<noteq> CHR ''>'') (addr @ ''>'') = addr" by simp
  show ?thesis
    unfolding extractEmailAddress_spec_def Let_def d using t by simp
qed

lemma extractEmailAddress_spec_bare:
  assumes "CHR ''<'' \<notin> set addr"
  shows "extractEmailAddress_spec addr = addr"
proof -
  have "\<forall>x\<in>set addr. x \<noteq> CHR ''<''" using assms by auto
  then have "dropWhile (\<lambda>c. c \<noteq> CHR ''<'') addr = []"
    by (simp only: dropWhile_eq_Nil_conv)
  then show ?thesis by (simp add: extractEmailAddress_spec_def)
qed

lemma getEmailAccountWithRules_exists:
  assumes "\<exists>acct\<in>set (emailAccounts d). ea_id acct = a"
  shows "\<exists>ea. getEmailAccountWithRules d a = Some ea \<and> ewr_id ea = a"
proof -
  obtain acct where f: "List.find (\<lambda>x. ea_id x = a) (emailAccounts d) = Some acct"
    using assms by (cases "List.find (\<lambda>x. ea_id x = a) (emailAccounts d)") (auto simp: find_None_iff)
  then have "ea_id acct = a" by (auto dest: find_Some_set)
  with f show ?thesis by (simp add: getEmailAccountWithRules_def)
qed

lemma getThreadsFromSender_query:
  assumes "getThreadsFromSender env sender n = (r, ev)"
  shows "CallGetThreads (''from:'' @ extractEmailAddress env sender @ '' -label:sent -label:draft'') n
         \<in> set ev"
  using assms by (auto simp: getThreadsFromSender_def Let_def split: sum.splits prod.splits)

lemma POST_valid:
  "POST env now d True data =
     (Processing,
      fst (snd (process env now d (body_emailAccountId data)
                  (extractEmailAddress env (body_from data)))),
      LogTrace ''Analyzing sender pattern''
        # snd (snd (process env now d (body_emailAccountId data)
                       (extractEmailAddress env (body_from data)))))"
  by (simp add: POST_def Let_def split: prod.splits)

lemma savePatternCheck_lookups:
  "rule_findUnique (savePatternCheck now d a from) rn a' = rule_findUnique d rn a'"
  "groupItem_findUnique (savePatternCheck now d a from) g t v = groupItem_findUnique d g t v"
  by (simp_all add: rule_findUnique_def groupItem_findUnique_def savePatternCheck_frame)

lemma groupItem_upsert_present:
  "\<exists>i. groupItem_findUnique (groupItem_upsert d g t v (\<lambda>i. i) e) g t v = Some i"
  unfolding groupItem_findUnique_def groupItem_upsert_def
  by (simp add: find_upsert_same)

section \<open>A run on its own is \<^verbatim>\<open>process\<close>\<close>

lemma steps_Returned: "steps n env now a from (Returned r, d) = (Returned r, d)"
  by (induction n) simp_all

lemma steps_write_phase:
  "steps 4 env now a from (AtRuleFind r, d)
   = (Returned SuccessTrue, savePatternCheck now (fst (saveLearnedPattern d a from r)) a from)"
  by (simp add: eval_nat_numeral saveLearnedPattern_def steps_Returned
           split: option.splits prod.splits)

lemma steps_no_match:
  "steps 4 env now a from (AtSavePatternCheck, d)
   = (Returned SuccessTrue, savePatternCheck now d a from)"
  by (simp add: eval_nat_numeral steps_Returned)

lemma process_fst_snd:
  "(fst (process env now d a from), fst (snd (process env now d a from)))
   = (case getEmailAccountWithRules d a of
        None \<Rightarrow> (SuccessFalse404, d)
      | Some ea \<Rightarrow>
          if (case newsletter_findUnique d (extractEmailAddress env from) (ewr_id ea) of
                None \<Rightarrow> False | Some c \<Rightarrow> patternAnalyzed c)
          then (SuccessTrue, d)
          else (case process_fetch env ea a from of
                  Inl r \<Rightarrow> (r, d)
                | Inr None \<Rightarrow> (SuccessTrue, savePatternCheck now d a from)
                | Inr (Some r) \<Rightarrow>
                    (SuccessTrue, savePatternCheck now (fst (saveLearnedPattern d a from r)) a from)))"
  by (cases "getThreadsFromSender env from MAX_RESULTS")
     (auto simp: process_def process_fetch_def process_threads_def process_detect_def
        process_catch_def after_events_def Let_def
        split: option.splits sum.splits prod.splits)

lemma steps_from_account:
  "steps (Suc (Suc n)) env now a from (AtAccount, d)
        = (case getEmailAccountWithRules d a of
        None \<Rightarrow> (Returned SuccessFalse404, d)
      | Some ea \<Rightarrow>
          if (case newsletter_findUnique d (extractEmailAddress env from) (ewr_id ea) of
                None \<Rightarrow> False | Some c \<Rightarrow> patternAnalyzed c)
          then (Returned SuccessTrue, d)
          else (case process_fetch env ea a from of
                  Inl r \<Rightarrow> (Returned r, d)
                | Inr None \<Rightarrow> steps n env now a from (AtSavePatternCheck, d)
                | Inr (Some r) \<Rightarrow> steps n env now a from (AtRuleFind r, d)))"
  by (simp add: steps_Returned split: option.splits sum.splits)

lemma steps_process:
  "steps 6 env now a from (AtAccount, d)
   = (Returned (fst (process env now d a from)), fst (snd (process env now d a from)))"
proof -
  have "steps (Suc (Suc 4)) env now a from (AtAccount, d)
        = (Returned (fst (process env now d a from)), fst (snd (process env now d a from)))"
    unfolding steps_from_account steps_write_phase steps_no_match
    using process_fst_snd[of env now d a "from"]
    by (auto split: option.splits sum.splits if_splits)
  then show ?thesis by simp
qed

section \<open>Evaluating the example\<close>

lemmas ex_defs =
  ex_account_def ex_rule_def ex_db_def ex_ewr_def ex_row_def ex_db_analyzed_def ex_msg_def
  ex_t1_def ex_t2_def ex_t3_def ex_messages_def ex_env_def ex_item_def ex_db_stored_def
  ex_db_raced_def

lemmas model_defs =
  POST_def process_def process_threads_def process_detect_def process_catch_def
  after_events_def getEmailAccountWithRules_def savePatternCheck_def oracle_rules_def
  saveLearnedPattern_def saveLearnedPatterns_def rule_findUnique_def group_create_def
  groupItem_upsert_def groupItem_findUnique_def newsletter_findUnique_def truthy_def
  getThreadsFromSender_def MAX_RESULTS_def THRESHOLD_EMAILS_def Let_def

section \<open>Claims\<close>

text \<open>
  C1. When the account exists and its Sender Check row for the sender has
  \<open>patternAnalyzed = true\<close>, \<^verbatim>\<open>process\<close> answers success at once: the database is the one
  it was given (no Sender Check row, container or criterion written) and the only event
  is a log line, so neither the mail provider nor the classifier is called.
\<close>

theorem process_already_analyzed_noop:
  assumes "\<exists>a\<in>set (emailAccounts d). ea_id a = emailAccountId"
    and "newsletter_findUnique d (extractEmailAddress env from) emailAccountId = Some c"
    and "patternAnalyzed c"
  shows "process env now d emailAccountId from
         = (SuccessTrue, d, [LogInfo ''Sender has already been analyzed''])"
proof -
  obtain a where a: "List.find (\<lambda>a. ea_id a = emailAccountId) (emailAccounts d) = Some a"
    using assms(1)
    by (cases "List.find (\<lambda>a. ea_id a = emailAccountId) (emailAccounts d)")
       (auto simp: find_None_iff)
  then have "ea_id a = emailAccountId" by (auto simp: find_Some_iff)
  with a assms(2,3) show ?thesis
    by (simp add: process_def getEmailAccountWithRules_def)
qed

theorem process_already_analyzed_noop_witness:
  "process (ex_env [''t1'', ''t2''] (Some (Some ''Newsletters''))) 9 ex_db_analyzed ''A''
     ''news@example.com''
   = (SuccessTrue, ex_db_analyzed, [LogInfo ''Sender has already been analyzed''])"
proof -
  let ?env = "ex_env [''t1'', ''t2''] (Some (Some ''Newsletters''))"
  have 1: "\<exists>a\<in>set (emailAccounts ex_db_analyzed). ea_id a = ''A''"
    by (simp add: ex_defs)
  have 2: "newsletter_findUnique ex_db_analyzed (extractEmailAddress ?env ''news@example.com'') ''A''
           = Some (ex_row 5)"
    by (simp add: ex_defs newsletter_findUnique_def)
  have 3: "patternAnalyzed (ex_row 5)"
    by (simp add: ex_defs)
  from process_already_analyzed_noop [OF 1 2 3] show ?thesis .
qed

text \<open>
  C7. When no rule of the account has the given name, \<^verbatim>\<open>saveLearnedPattern\<close> logs
  "Rule not found" and returns; the database is unchanged.
\<close>

theorem saveLearnedPattern_rule_not_found:
  assumes "\<forall>r\<in>set (rules d). \<not> (rule_name r = ruleName \<and> rule_emailAccountId r = emailAccountId)"
  shows "saveLearnedPattern d emailAccountId from ruleName = (d, [LogError ''Rule not found''])"
proof -
  have "rule_findUnique d ruleName emailAccountId = None"
    using assms by (auto simp: rule_findUnique_def find_None_iff)
  then show ?thesis by (simp add: saveLearnedPattern_def)
qed

theorem saveLearnedPattern_rule_not_found_witness:
  "saveLearnedPattern ex_db ''A'' ''news@example.com'' ''Receipts''
   = (ex_db, [LogError ''Rule not found''])"
proof -
  have "\<forall>r\<in>set (rules ex_db). \<not> (rule_name r = ''Receipts'' \<and> rule_emailAccountId r = ''A'')"
    by (simp add: ex_defs)
  from saveLearnedPattern_rule_not_found [OF this] show ?thesis .
qed

text \<open>
  C3. When the thread list is fetched and some thread holds a message whose sender
  address is not the address under analysis, \<^verbatim>\<open>getThreadsFromSender\<close> returns the empty
  list, whatever one-way threads it had collected before; and with the limit of
  \<^verbatim>\<open>process\<close> no run for that sender changes the database or calls the classifier.
\<close>

theorem getThreadsFromSender_conversation_discards_all:
  assumes "getThreads env (''from:'' @ extractEmailAddress env sender @ '' -label:sent -label:draft'')
             maxResults = Inr tids"
    and "\<forall>t\<in>set tids. \<exists>ms. getThreadMessages env t = Inr ms"
    and "t \<in> set tids" and "getThreadMessages env t = Inr ms" and "m \<in> set ms"
    and "extractEmailAddress env (headers_from m) \<noteq> extractEmailAddress env sender"
  shows "fst (getThreadsFromSender env sender maxResults) = Inr [] \<and>
         (maxResults = MAX_RESULTS \<longrightarrow>
            (\<forall>now d a. fst (snd (process env now d a sender)) = d
                     \<and> CallAiDetect \<notin> set (snd (snd (process env now d a sender)))))"
proof -
  have "\<exists>t\<in>set tids. \<exists>ms. getThreadMessages env t = Inr ms
           \<and> (\<exists>m\<in>set ms. extractEmailAddress env (headers_from m) \<noteq> extractEmailAddress env sender)"
    using assms(3-6) by blast
  with assms(2) have
    "fst (getThreadsFromSender_loop env (extractEmailAddress env sender) tids []) = Inr []"
    by (rule loop_conversation)
  with assms(1) have empty: "fst (getThreadsFromSender env sender maxResults) = Inr []"
    by (simp add: getThreadsFromSender_fst)
  have "fst (snd (process env now d a sender)) = d
         \<and> CallAiDetect \<notin> set (snd (snd (process env now d a sender)))"
    if "maxResults = MAX_RESULTS" for now d a
    using process_no_threads[of env sender "[]"] empty that by simp
  with empty show ?thesis by blast
qed

theorem getThreadsFromSender_conversation_discards_all_witness:
  "fst (getThreadsFromSender (ex_env [''t1'', ''t2'', ''t3''] None) ''news@example.com'' 10) = Inr []
   \<and> fst (getThreadsFromSender (ex_env [''t1'', ''t2''] None) ''news@example.com'' 10)
       = Inr [ex_t1, ex_t2]
   \<and> fst (snd (process (ex_env [''t1'', ''t2'', ''t3''] None) 9 ex_db ''A'' ''news@example.com''))
       = ex_db"
proof -
  let ?env = "ex_env [''t1'', ''t2'', ''t3''] None"
  have 1: "getThreads ?env (''from:'' @ extractEmailAddress ?env ''news@example.com''
                             @ '' -label:sent -label:draft'') 10 = Inr [''t1'', ''t2'', ''t3'']"
    by (simp add: ex_defs)
  have 2: "\<forall>t\<in>set [''t1'', ''t2'', ''t3'']. \<exists>ms. getThreadMessages ?env t = Inr ms"
    by (simp add: ex_defs)
  have 3: "''t3'' \<in> set [''t1'', ''t2'', ''t3'']" by simp
  have 4: "getThreadMessages ?env ''t3'' = Inr (messages ex_t3)"
    by (simp add: ex_defs)
  have 5: "ex_msg ''bob@example.com'' ''thanks'' \<in> set (messages ex_t3)"
    by (simp add: ex_defs)
  have 6: "extractEmailAddress ?env (headers_from (ex_msg ''bob@example.com'' ''thanks''))
           \<noteq> extractEmailAddress ?env ''news@example.com''"
    by (simp add: ex_defs)
  have 7: "(10::nat) = MAX_RESULTS" by (simp add: MAX_RESULTS_def)
  have 8: "fst (getThreadsFromSender (ex_env [''t1'', ''t2''] None) ''news@example.com'' 10)
           = Inr [ex_t1, ex_t2]"
    by (simp add: ex_defs getThreadsFromSender_def Let_def)
  from getThreadsFromSender_conversation_discards_all [OF 1 2 3 4 5 6] 7 8
  show ?thesis by simp
qed

text \<open>
  C10. Every message of every thread that \<^verbatim>\<open>getThreadsFromSender\<close> returns has the
  address under analysis as its sender address; so has every message of the flattened
  list whose length \<^verbatim>\<open>process\<close> compares with the threshold.
\<close>

theorem getThreadsFromSender_returns_one_way:
  assumes "fst (getThreadsFromSender env sender maxResults) = Inr ts"
  shows "(\<forall>t\<in>set ts. \<forall>m\<in>set (messages t).
            extractEmailAddress env (headers_from m) = extractEmailAddress env sender)
         \<and> (\<forall>m\<in>set (concat (map messages ts)).
            extractEmailAddress env (headers_from m) = extractEmailAddress env sender)"
proof -
  have "\<forall>t\<in>set ts. \<forall>m\<in>set (messages t).
            extractEmailAddress env (headers_from m) = extractEmailAddress env sender"
  proof (cases "getThreads env
             (''from:'' @ extractEmailAddress env sender @ '' -label:sent -label:draft'') maxResults")
    case (Inl e)
    with assms show ?thesis by (simp add: getThreadsFromSender_fst)
  next
    case (Inr tids)
    with assms have
      "fst (getThreadsFromSender_loop env (extractEmailAddress env sender) tids []) = Inr ts"
      by (simp add: getThreadsFromSender_fst)
    then show ?thesis by (rule loop_one_way) simp
  qed
  then show ?thesis by auto
qed

theorem getThreadsFromSender_returns_one_way_witness:
  "fst (getThreadsFromSender (ex_env [''t1'', ''t2''] None) ''news@example.com'' 10)
     = Inr [ex_t1, ex_t2]
   \<and> list_all (\<lambda>m. headers_from m = ''news@example.com'') (messages ex_t1 @ messages ex_t2)"
proof -
  let ?env = "ex_env [''t1'', ''t2''] None"
  have 1: "fst (getThreadsFromSender ?env ''news@example.com'' 10) = Inr [ex_t1, ex_t2]"
    by (simp add: ex_defs getThreadsFromSender_def Let_def)
  have 2: "extractEmailAddress ?env = (\<lambda>s. s)" by (simp add: ex_defs)
  from getThreadsFromSender_returns_one_way [OF 1] 1 show ?thesis
    by (simp add: 2 list_all_iff)
qed

text \<open>
  C4. A run that gets as far as the thread list and finds no thread, or fewer than three
  messages in the surviving threads, answers success; the database is unchanged (no
  Sender Check row, no criterion, the sender stays unanalyzed) and the classifier is not
  called.
\<close>

theorem process_insufficient_evidence:
  assumes "getEmailAccountWithRules d emailAccountId = Some ea"
    and "\<not> (case newsletter_findUnique d (extractEmailAddress env from) (ewr_id ea) of
               None \<Rightarrow> False | Some c \<Rightarrow> patternAnalyzed c)"
    and "ewr_account ea = Some acc"
    and "truthy (access_token acc)" and "truthy (refresh_token acc)"
    and "getGmailClientWithRefresh env acc emailAccountId = Inr u"
    and "fst (getThreadsFromSender env from MAX_RESULTS) = Inr ts"
    and "ts = [] \<or> length (concat (map messages ts)) < 3"
  shows "fst (process env now d emailAccountId from) = SuccessTrue
         \<and> fst (snd (process env now d emailAccountId from)) = d
         \<and> CallAiDetect \<notin> set (snd (snd (process env now d emailAccountId from)))"
proof -
  obtain ev where ev: "getThreadsFromSender env from MAX_RESULTS = (Inr ts, ev)"
    using assms(7) by (cases "getThreadsFromSender env from MAX_RESULTS") auto
  have few: "ts = [] \<or> length (concat (map messages ts)) < THRESHOLD_EMAILS"
    using assms(8) by (simp add: THRESHOLD_EMAILS_def)
  have "process env now d emailAccountId from =
          after_events (CallGmailClient emailAccountId # ev)
            (process_threads env now d ea emailAccountId from ts)"
    using assms(1-6) ev by (rule process_reaches_threads)
  then have "fst (process env now d emailAccountId from) = SuccessTrue"
    by (simp add: after_events_simps process_threads_insufficient(1)[OF few])
  moreover note process_no_threads[OF assms(7) few, of now d emailAccountId]
  ultimately show ?thesis by simp
qed

theorem process_insufficient_evidence_witness:
  "fst (process (ex_env [''t1''] (Some (Some ''Newsletters''))) 9 ex_db ''A'' ''news@example.com'')
     = SuccessTrue
   \<and> fst (snd (process (ex_env [''t1''] (Some (Some ''Newsletters''))) 9 ex_db ''A''
                  ''news@example.com'')) = ex_db
   \<and> snd (snd (process (ex_env [''t1''] (Some (Some ''Newsletters''))) 9 ex_db ''A''
                  ''news@example.com''))
     = [CallGmailClient ''A'', CallGetThreads ''from:news@example.com -label:sent -label:draft'' 10,
        CallGetThreadMessages ''t1'', LogInfo ''Not enough emails found from this sender'']"
proof -
  let ?env = "ex_env [''t1''] (Some (Some ''Newsletters''))"
  have 1: "getEmailAccountWithRules ex_db ''A'' = Some ex_ewr"
    by (simp add: ex_defs getEmailAccountWithRules_def)
  have 2: "\<not> (case newsletter_findUnique ex_db (extractEmailAddress ?env ''news@example.com'')
                    (ewr_id ex_ewr) of None \<Rightarrow> False | Some c \<Rightarrow> patternAnalyzed c)"
    by (simp add: ex_defs newsletter_findUnique_def)
  have 3: "ewr_account ex_ewr = Some ex_account" by (simp add: ex_ewr_def)
  have 4: "truthy (access_token ex_account)" by (simp add: ex_account_def truthy_def)
  have 5: "truthy (refresh_token ex_account)" by (simp add: ex_account_def truthy_def)
  have 6: "getGmailClientWithRefresh ?env ex_account ''A'' = Inr ()" by (simp add: ex_env_def)
  have 7: "fst (getThreadsFromSender ?env ''news@example.com'' MAX_RESULTS) = Inr [ex_t1]"
    by (simp add: ex_defs getThreadsFromSender_def MAX_RESULTS_def Let_def)
  have 8: "[ex_t1] = [] \<or> length (concat (map messages [ex_t1])) < 3"
    by (simp add: ex_defs)
  have 9: "snd (snd (process ?env 9 ex_db ''A'' ''news@example.com''))
     = [CallGmailClient ''A'', CallGetThreads ''from:news@example.com -label:sent -label:draft'' 10,
        CallGetThreadMessages ''t1'', LogInfo ''Not enough emails found from this sender'']"
    by (simp add: ex_defs model_defs)
  from process_insufficient_evidence [OF 1 2 3 4 5 6 7 8, of 9] 9 show ?thesis by simp
qed

text \<open>
  C2. A run that reaches the classifier (threads found, at least three messages) and gets
  a verdict from it answers success and leaves a Sender Check row for the account and
  the sender with \<open>patternAnalyzed = true\<close> and the current time, whether or not the verdict
  names a rule; when it names none, criteria and containers are as before.
\<close>

theorem process_ledger_written:
  assumes "getEmailAccountWithRules d emailAccountId = Some ea"
    and "\<not> (case newsletter_findUnique d (extractEmailAddress env from) (ewr_id ea) of
               None \<Rightarrow> False | Some c \<Rightarrow> patternAnalyzed c)"
    and "ewr_account ea = Some acc"
    and "truthy (access_token acc)" and "truthy (refresh_token acc)"
    and "getGmailClientWithRefresh env acc emailAccountId = Inr u"
    and "fst (getThreadsFromSender env from MAX_RESULTS) = Inr ts"
    and "ts \<noteq> []" and "3 \<le> length (concat (map messages ts))"
    and "aiDetectRecurringPattern env (concat (map messages ts)) ea (oracle_rules ea) = Inr verdict"
  shows "fst (process env now d emailAccountId from) = SuccessTrue
         \<and> (\<exists>c. newsletter_findUnique (fst (snd (process env now d emailAccountId from)))
                   from emailAccountId = Some c
                \<and> patternAnalyzed c \<and> lastAnalyzedAt c = Some now)
         \<and> (\<not> (\<exists>r. verdict = Some (Some r) \<and> r \<noteq> []) \<longrightarrow>
              groupItems (fst (snd (process env now d emailAccountId from))) = groupItems d
              \<and> groups (fst (snd (process env now d emailAccountId from))) = groups d)"
proof -
  obtain ev where ev: "getThreadsFromSender env from MAX_RESULTS = (Inr ts, ev)"
    using assms(7) by (cases "getThreadsFromSender env from MAX_RESULTS") auto
  have p: "process env now d emailAccountId from =
           after_events (CallGmailClient emailAccountId # ev)
             (process_detect env now d ea emailAccountId from (concat (map messages ts)))"
    using assms(1-6) ev assms(8,9) by (rule process_reaches_detect)
  note pd = process_detect_verdict[OF assms(10), of now d emailAccountId "from"]
  have 1: "fst (process env now d emailAccountId from) = SuccessTrue"
    by (simp add: p after_events_simps pd)
  have 2: "\<exists>c. newsletter_findUnique (fst (snd (process env now d emailAccountId from)))
                   from emailAccountId = Some c
                \<and> patternAnalyzed c \<and> lastAnalyzedAt c = Some now"
    by (simp only: p after_events_simps pd savePatternCheck_find)
  have 3: "groupItems (fst (snd (process env now d emailAccountId from))) = groupItems d
              \<and> groups (fst (snd (process env now d emailAccountId from))) = groups d"
    if "\<not> (\<exists>r. verdict = Some (Some r) \<and> r \<noteq> [])"
    using that by (auto simp: p after_events_simps pd savePatternCheck_frame split: option.splits)
  from 1 2 3 show ?thesis by blast
qed

theorem process_ledger_written_witness:
  "fst (process (ex_env [''t1'', ''t2''] (Some None)) 9 ex_db ''A'' ''news@example.com'')
     = SuccessTrue
   \<and> newsletters (fst (snd (process (ex_env [''t1'', ''t2''] (Some None)) 9 ex_db ''A''
                               ''news@example.com''))) = [ex_row 9]
   \<and> groupItems (fst (snd (process (ex_env [''t1'', ''t2''] (Some None)) 9 ex_db ''A''
                               ''news@example.com''))) = []"
proof -
  let ?env = "ex_env [''t1'', ''t2''] (Some None)"
  have 1: "getEmailAccountWithRules ex_db ''A'' = Some ex_ewr"
    by (simp add: ex_defs getEmailAccountWithRules_def)
  have 2: "\<not> (case newsletter_findUnique ex_db (extractEmailAddress ?env ''news@example.com'')
                    (ewr_id ex_ewr) of None \<Rightarrow> False | Some c \<Rightarrow> patternAnalyzed c)"
    by (simp add: ex_defs newsletter_findUnique_def)
  have 3: "ewr_account ex_ewr = Some ex_account" by (simp add: ex_ewr_def)
  have 4: "truthy (access_token ex_account)" by (simp add: ex_account_def truthy_def)
  have 5: "truthy (refresh_token ex_account)" by (simp add: ex_account_def truthy_def)
  have 6: "getGmailClientWithRefresh ?env ex_account ''A'' = Inr ()" by (simp add: ex_env_def)
  have 7: "fst (getThreadsFromSender ?env ''news@example.com'' MAX_RESULTS) = Inr [ex_t1, ex_t2]"
    by (simp add: ex_defs getThreadsFromSender_def MAX_RESULTS_def Let_def)
  have 8: "[ex_t1, ex_t2] \<noteq> []" by simp
  have 9: "3 \<le> length (concat (map messages [ex_t1, ex_t2]))" by (simp add: ex_defs)
  have 10: "aiDetectRecurringPattern ?env (concat (map messages [ex_t1, ex_t2])) ex_ewr
              (oracle_rules ex_ewr) = Inr (Some None)"
    by (simp add: ex_env_def)
  have 11: "newsletters (fst (snd (process ?env 9 ex_db ''A'' ''news@example.com''))) = [ex_row 9]"
    by (simp add: ex_defs model_defs)
  from process_ledger_written [OF 1 2 3 4 5 6 7 8 9 10, of 9] 11 show ?thesis
    by (simp add: ex_db_def)
qed

text \<open>
  C5. From a state in which the rule exists (container identifiers and criterion keys
  being unique, as the store keeps them), a second \<^verbatim>\<open>saveLearnedPattern\<close> with the same
  arguments changes nothing; after it the rule points to a container, that container
  has exactly one criterion of kind \<open>FROM\<close> with the value, and at most one container
  has the identifier the rule points to.
\<close>

theorem saveLearnedPattern_twice:
  assumes "rule_findUnique d ruleName emailAccountId \<noteq> None"
    and "distinct (map group_id (groups d))"
    and "distinct (map (\<lambda>i. (gi_groupId i, gi_type i, gi_value i)) (groupItems d))"
  shows "fst (saveLearnedPattern (fst (saveLearnedPattern d emailAccountId from ruleName))
                 emailAccountId from ruleName)
         = fst (saveLearnedPattern d emailAccountId from ruleName)
       \<and> (\<exists>rule g.
             rule_findUnique (fst (saveLearnedPattern d emailAccountId from ruleName))
               ruleName emailAccountId = Some rule
           \<and> rule_groupId rule = Some g
           \<and> length (filter (\<lambda>i. gi_groupId i = g \<and> gi_type i = FROM \<and> gi_value i = from)
                (groupItems (fst (saveLearnedPattern d emailAccountId from ruleName)))) = 1
           \<and> length (filter (\<lambda>x. group_id x = g)
                (groups (fst (saveLearnedPattern d emailAccountId from ruleName)))) \<le> 1)"
proof -
  let ?d1 = "fst (saveLearnedPattern d emailAccountId from ruleName)"
  from assms(1) obtain rule where rule: "rule_findUnique d ruleName emailAccountId = Some rule"
    by auto
  from saveLearnedPattern_post[OF rule, of "from"] obtain rule' g d0 where
    r': "rule_findUnique ?d1 ruleName emailAccountId = Some rule'"
    and g: "rule_groupId rule' = Some g"
    and d1: "?d1 = groupItem_upsert d0 g FROM from (\<lambda>i. i) False"
    and items: "groupItems d0 = groupItems d"
    and grp: "distinct (map group_id (groups d))
                \<longrightarrow> length (filter (\<lambda>x. group_id x = g) (groups d0)) \<le> 1"
    by blast
  have "fst (saveLearnedPattern ?d1 emailAccountId from ruleName) = ?d1"
    by (simp add: saveLearnedPattern_with_group[OF r' g])
       (simp add: d1 groupItem_upsert_id_again)
  moreover have "length (filter (\<lambda>i. gi_groupId i = g \<and> gi_type i = FROM \<and> gi_value i = from)
                (groupItems ?d1)) = 1"
    unfolding d1 by (rule groupItem_upsert_count) (simp add: items assms(3))
  moreover have "length (filter (\<lambda>x. group_id x = g) (groups ?d1)) \<le> 1"
    using grp assms(2) by (simp add: d1 groupItem_upsert_frame)
  ultimately show ?thesis using r' g by blast
qed

theorem saveLearnedPattern_twice_witness:
  "fst (saveLearnedPattern ex_db ''A'' ''news@example.com'' ''Newsletters'') = ex_db_stored False
   \<and> fst (saveLearnedPattern (fst (saveLearnedPattern ex_db ''A'' ''news@example.com''
                                      ''Newsletters''))
            ''A'' ''news@example.com'' ''Newsletters'') = ex_db_stored False"
proof -
  have 1: "rule_findUnique ex_db ''Newsletters'' ''A'' \<noteq> None"
    by (simp add: ex_defs rule_findUnique_def)
  have 2: "distinct (map group_id (groups ex_db))" by (simp add: ex_defs)
  have 3: "distinct (map (\<lambda>i. (gi_groupId i, gi_type i, gi_value i)) (groupItems ex_db))"
    by (simp add: ex_defs)
  have 4: "fst (saveLearnedPattern ex_db ''A'' ''news@example.com'' ''Newsletters'')
           = ex_db_stored False"
    by (simp add: ex_defs model_defs)
  from saveLearnedPattern_twice [OF 1 2 3, of "''news@example.com''"] 4 show ?thesis
    by simp
qed

text \<open>
  C6. For a criterion that exists under the rule's container with kind \<open>FROM\<close> and the
  value, \<^verbatim>\<open>saveLearnedPattern\<close> leaves the row as it is, exclude flag included, whereas
  \<^verbatim>\<open>saveLearnedPatterns\<close> sets the exclude flag to the one of the last pattern with that
  key, false when the pattern gives none.
\<close>

theorem exclude_flag_policies:
  assumes "rule_findUnique d ruleName emailAccountId = Some rule"
    and "rule_groupId rule = Some g"
    and "groupItem_findUnique d g FROM v = Some i"
    and "pat_type p = FROM" and "pat_value p = v"
    and "\<forall>q\<in>set qs. \<not> (pat_type q = FROM \<and> pat_value q = v)"
  shows "groupItem_findUnique (fst (saveLearnedPattern d emailAccountId v ruleName)) g FROM v
           = Some i
       \<and> groupItem_findUnique (fst (saveLearnedPatterns d emailAccountId ruleName (ps @ p # qs)))
           g FROM v
           = Some (i \<lparr> gi_exclude := (case pat_exclude p of None \<Rightarrow> False | Some b \<Rightarrow> b) \<rparr>)"
proof -
  let ?e = "case pat_exclude p of None \<Rightarrow> False | Some b \<Rightarrow> b"
  have "\<exists>x\<in>set (groupItems d). gi_groupId x = g \<and> gi_type x = FROM \<and> gi_value x = v"
    using assms(3) by (auto simp: groupItem_findUnique_def dest: find_Some_set)
  then have "groupItem_upsert d g FROM v (\<lambda>i. i) False = d"
    by (simp add: groupItem_upsert_def upsert_id_existing)
  then have single: "groupItem_findUnique (fst (saveLearnedPattern d emailAccountId v ruleName))
                       g FROM v = Some i"
    using assms(1-3) by (simp add: saveLearnedPattern_with_group)
  let ?d1 = "saveLearnedPatterns_loop d g ps"
  obtain b where b: "groupItem_findUnique ?d1 g FROM v = Some (i \<lparr> gi_exclude := b \<rparr>)"
    using saveLearnedPatterns_loop_keeps_row[OF assms(3)] by blast
  have "groupItem_findUnique (saveLearnedPatterns_loop d g (ps @ p # qs)) g FROM v
        = groupItem_findUnique
            (groupItem_upsert ?d1 g FROM v (\<lambda>i. i \<lparr> gi_exclude := ?e \<rparr>) ?e) g FROM v"
    using assms(4-6)
    by (simp add: saveLearnedPatterns_loop_append Let_def saveLearnedPatterns_loop_find_other)
  also have "\<dots> = Some (i \<lparr> gi_exclude := ?e \<rparr>)"
    by (simp add: groupItem_upsert_find_same b)
  finally have bulk: "groupItem_findUnique
        (fst (saveLearnedPatterns d emailAccountId ruleName (ps @ p # qs))) g FROM v
      = Some (i \<lparr> gi_exclude := ?e \<rparr>)"
    using assms(1,2) by (simp add: saveLearnedPatterns_with_group)
  from single bulk show ?thesis by blast
qed

theorem exclude_flag_policies_witness:
  "groupItem_findUnique
     (fst (saveLearnedPattern (ex_db_stored True) ''A'' ''news@example.com'' ''Newsletters''))
     0 FROM ''news@example.com'' = Some (ex_item True)
   \<and> groupItem_findUnique
     (fst (saveLearnedPatterns (ex_db_stored True) ''A'' ''Newsletters''
        [\<lparr> pat_type = FROM, pat_value = ''news@example.com'', pat_exclude = None \<rparr>]))
     0 FROM ''news@example.com'' = Some (ex_item False)"
proof -
  let ?p = "\<lparr> pat_type = FROM, pat_value = ''news@example.com'', pat_exclude = None \<rparr>"
  have 1: "rule_findUnique (ex_db_stored True) ''Newsletters'' ''A'' = Some (ex_rule (Some 0))"
    by (simp add: ex_defs rule_findUnique_def)
  have 2: "rule_groupId (ex_rule (Some 0)) = Some 0" by (simp add: ex_rule_def)
  have 3: "groupItem_findUnique (ex_db_stored True) 0 FROM ''news@example.com''
           = Some (ex_item True)"
    by (simp add: ex_defs groupItem_findUnique_def)
  have 4: "pat_type ?p = FROM" by simp
  have 5: "pat_value ?p = ''news@example.com''" by simp
  have 6: "\<forall>q\<in>set []. \<not> (pat_type q = FROM \<and> pat_value q = ''news@example.com'')" by simp
  from exclude_flag_policies [OF 1 2 3 4 5 6, of "[]"] show ?thesis
    by (simp add: ex_item_def)
qed

text \<open>
  C8. With the normalizer of the spec, a request whose sender is a display name followed
  by the address in angle brackets behaves as \<^verbatim>\<open>process\<close> on the bare address. The bare
  address is the key of the Sender Check lookup (an analyzed row under it makes the run
  a no-op), and in a run that reaches the classifier and stores a pattern it is the
  address of the provider query, the key of the Sender Check row written and the value
  of the criterion stored.
\<close>

theorem POST_normalizes_sender:
  assumes "extractEmailAddress env = extractEmailAddress_spec"
    and "body_from data = name @ ''<'' @ addr @ ''>''"
    and "CHR ''<'' \<notin> set name" and "CHR ''<'' \<notin> set addr" and "CHR ''>'' \<notin> set addr"
    and "body_emailAccountId data = a"
  shows "POST env now d True data =
           (Processing, fst (snd (process env now d a addr)),
            LogTrace ''Analyzing sender pattern'' # snd (snd (process env now d a addr)))
       \<and> ((\<exists>acct\<in>set (emailAccounts d). ea_id acct = a) \<and>
          (\<exists>c. newsletter_findUnique d addr a = Some c \<and> patternAnalyzed c) \<longrightarrow>
            POST env now d True data =
              (Processing, d, [LogTrace ''Analyzing sender pattern'',
                               LogInfo ''Sender has already been analyzed'']))
       \<and> (\<forall>ea acc u ts rn.
            getEmailAccountWithRules d a = Some ea \<and>
            \<not> (case newsletter_findUnique d addr (ewr_id ea) of
                  None \<Rightarrow> False | Some c \<Rightarrow> patternAnalyzed c) \<and>
            ewr_account ea = Some acc \<and> truthy (access_token acc) \<and> truthy (refresh_token acc) \<and>
            getGmailClientWithRefresh env acc a = Inr u \<and>
            fst (getThreadsFromSender env addr MAX_RESULTS) = Inr ts \<and>
            ts \<noteq> [] \<and> 3 \<le> length (concat (map messages ts)) \<and>
            aiDetectRecurringPattern env (concat (map messages ts)) ea (oracle_rules ea)
              = Inr (Some (Some rn)) \<and> rn \<noteq> [] \<and>
            rule_findUnique d rn a \<noteq> None
          \<longrightarrow>
            CallGetThreads (''from:'' @ addr @ '' -label:sent -label:draft'') MAX_RESULTS
              \<in> set (snd (snd (POST env now d True data))) \<and>
            (\<exists>c. newsletter_findUnique (fst (snd (POST env now d True data))) addr a = Some c
                  \<and> patternAnalyzed c) \<and>
            (\<exists>rule g i. rule_findUnique (fst (snd (POST env now d True data))) rn a = Some rule
                  \<and> rule_groupId rule = Some g
                  \<and> groupItem_findUnique (fst (snd (POST env now d True data))) g FROM addr
                      = Some i))"
proof -
  have e1: "extractEmailAddress env (body_from data) = addr"
    using extractEmailAddress_spec_display[OF assms(3,5)] assms(1,2) by simp
  have e2: "extractEmailAddress env addr = addr"
    using extractEmailAddress_spec_bare[OF assms(4)] assms(1) by simp
  have post: "POST env now d True data =
           (Processing, fst (snd (process env now d a addr)),
            LogTrace ''Analyzing sender pattern'' # snd (snd (process env now d a addr)))"
    by (simp only: POST_valid e1 assms(6))
  have lookup: "POST env now d True data =
              (Processing, d, [LogTrace ''Analyzing sender pattern'',
                               LogInfo ''Sender has already been analyzed''])"
    if acct: "\<exists>acct\<in>set (emailAccounts d). ea_id acct = a"
      and row: "\<exists>c. newsletter_findUnique d addr a = Some c \<and> patternAnalyzed c"
  proof -
    from getEmailAccountWithRules_exists[OF acct] obtain ea where
      "getEmailAccountWithRules d a = Some ea" "ewr_id ea = a" by blast
    with row have "process env now d a addr
                   = (SuccessTrue, d, [LogInfo ''Sender has already been analyzed''])"
      by (auto simp: process_def e2)
    with post show ?thesis by simp
  qed
  have run: "CallGetThreads (''from:'' @ addr @ '' -label:sent -label:draft'') MAX_RESULTS
              \<in> set (snd (snd (POST env now d True data))) \<and>
            (\<exists>c. newsletter_findUnique (fst (snd (POST env now d True data))) addr a = Some c
                  \<and> patternAnalyzed c) \<and>
            (\<exists>rule g i. rule_findUnique (fst (snd (POST env now d True data))) rn a = Some rule
                  \<and> rule_groupId rule = Some g
                  \<and> groupItem_findUnique (fst (snd (POST env now d True data))) g FROM addr
                      = Some i)"
    if h: "getEmailAccountWithRules d a = Some ea"
      "\<not> (case newsletter_findUnique d addr (ewr_id ea) of
                  None \<Rightarrow> False | Some c \<Rightarrow> patternAnalyzed c)"
      "ewr_account ea = Some acc" "truthy (access_token acc)" "truthy (refresh_token acc)"
      "getGmailClientWithRefresh env acc a = Inr u"
      "fst (getThreadsFromSender env addr MAX_RESULTS) = Inr ts"
      "ts \<noteq> []" "3 \<le> length (concat (map messages ts))"
      "aiDetectRecurringPattern env (concat (map messages ts)) ea (oracle_rules ea)
              = Inr (Some (Some rn))" "rn \<noteq> []"
      "rule_findUnique d rn a \<noteq> None"
    for ea acc u ts rn
  proof -
    obtain ev where ev: "getThreadsFromSender env addr MAX_RESULTS = (Inr ts, ev)"
      using h(7) by (cases "getThreadsFromSender env addr MAX_RESULTS") auto
    have na: "\<not> (case newsletter_findUnique d (extractEmailAddress env addr) (ewr_id ea) of
                  None \<Rightarrow> False | Some c \<Rightarrow> patternAnalyzed c)"
      unfolding e2 by (rule h(2))
    have p: "process env now d a addr =
           after_events (CallGmailClient a # ev)
             (process_detect env now d ea a addr (concat (map messages ts)))"
      using h(1) na h(3-6) ev h(8,9) by (rule process_reaches_detect)
    let ?d1 = "fst (saveLearnedPattern d a addr rn)"
    have db: "fst (snd (POST env now d True data)) = savePatternCheck now ?d1 a addr"
      using h(11) by (simp add: post p after_events_simps process_detect_verdict(2)[OF h(10)])
    have "CallGetThreads (''from:'' @ extractEmailAddress env addr @ '' -label:sent -label:draft'')
            MAX_RESULTS \<in> set ev"
      using ev by (rule getThreadsFromSender_query)
    then have 1: "CallGetThreads (''from:'' @ addr @ '' -label:sent -label:draft'') MAX_RESULTS
              \<in> set (snd (snd (POST env now d True data)))"
      by (simp add: post p after_events_simps e2)
    have 2: "\<exists>c. newsletter_findUnique (fst (snd (POST env now d True data))) addr a = Some c
                  \<and> patternAnalyzed c"
      using savePatternCheck_find[of now ?d1 a addr] by (auto simp: db)
    from h(12) obtain rule0 where "rule_findUnique d rn a = Some rule0" by auto
    from saveLearnedPattern_post[OF this, of addr] obtain rule g d0 where
      "rule_findUnique ?d1 rn a = Some rule" "rule_groupId rule = Some g"
      "?d1 = groupItem_upsert d0 g FROM addr (\<lambda>i. i) False"
      by blast
    moreover from this(3) groupItem_upsert_present[of d0 g FROM addr False]
    obtain i where "groupItem_findUnique ?d1 g FROM addr = Some i" by auto
    ultimately have 3: "\<exists>rule g i. rule_findUnique (fst (snd (POST env now d True data))) rn a
                    = Some rule
                  \<and> rule_groupId rule = Some g
                  \<and> groupItem_findUnique (fst (snd (POST env now d True data))) g FROM addr
                      = Some i"
      by (auto simp: db savePatternCheck_lookups)
    from 1 2 3 show ?thesis by blast
  qed
  from post lookup run show ?thesis by blast
qed

theorem POST_normalizes_sender_witness:
  "CallGetThreads ''from:news@example.com -label:sent -label:draft'' 10
     \<in> set (snd (snd (POST (ex_env [''t1'', ''t2''] (Some (Some ''Newsletters''))
                               \<lparr> extractEmailAddress := extractEmailAddress_spec \<rparr>) 9 ex_db True
                        \<lparr> body_emailAccountId = ''A'',
                          body_from = ''Example News <news@example.com>'' \<rparr>)))
   \<and> fst (snd (POST (ex_env [''t1'', ''t2''] (Some (Some ''Newsletters''))
                       \<lparr> extractEmailAddress := extractEmailAddress_spec \<rparr>) 9 ex_db True
                \<lparr> body_emailAccountId = ''A'',
                  body_from = ''Example News <news@example.com>'' \<rparr>))
     = ex_db_stored False \<lparr> newsletters := [ex_row 9] \<rparr>"
proof -
  let ?env = "ex_env [''t1'', ''t2''] (Some (Some ''Newsletters''))
                \<lparr> extractEmailAddress := extractEmailAddress_spec \<rparr>"
  let ?data = "\<lparr> body_emailAccountId = ''A'', body_from = ''Example News <news@example.com>'' \<rparr>"
  have 1: "extractEmailAddress ?env = extractEmailAddress_spec" by (simp add: ex_env_def)
  have 2: "body_from ?data = ''Example News '' @ ''<'' @ ''news@example.com'' @ ''>''" by simp
  have 3: "CHR ''<'' \<notin> set ''Example News ''" by simp
  have 4: "CHR ''<'' \<notin> set ''news@example.com''" by simp
  have 5: "CHR ''>'' \<notin> set ''news@example.com''" by simp
  have 6: "body_emailAccountId ?data = ''A''" by simp
  note keys = POST_normalizes_sender [OF 1 2 3 4 5 6, of 9 ex_db]
  have post: "POST ?env 9 ex_db True ?data =
           (Processing, fst (snd (process ?env 9 ex_db ''A'' ''news@example.com'')),
            LogTrace ''Analyzing sender pattern''
              # snd (snd (process ?env 9 ex_db ''A'' ''news@example.com'')))"
    using keys by (rule conjunct1)
  have a1: "getEmailAccountWithRules ex_db ''A'' = Some ex_ewr"
    by (simp add: ex_defs getEmailAccountWithRules_def)
  have a2: "\<not> (case newsletter_findUnique ex_db ''news@example.com'' (ewr_id ex_ewr) of
                  None \<Rightarrow> False | Some c \<Rightarrow> patternAnalyzed c)"
    by (simp add: ex_defs newsletter_findUnique_def)
  have a3: "ewr_account ex_ewr = Some ex_account" by (simp add: ex_ewr_def)
  have a4: "truthy (access_token ex_account)" by (simp add: ex_account_def truthy_def)
  have a5: "truthy (refresh_token ex_account)" by (simp add: ex_account_def truthy_def)
  have a6: "getGmailClientWithRefresh ?env ex_account ''A'' = Inr ()" by (simp add: ex_env_def)
  have a7: "fst (getThreadsFromSender ?env ''news@example.com'' MAX_RESULTS) = Inr [ex_t1, ex_t2]"
    by (simp add: ex_defs getThreadsFromSender_def MAX_RESULTS_def Let_def
          extractEmailAddress_spec_def)
  have a8: "[ex_t1, ex_t2] \<noteq> []" by simp
  have a9: "3 \<le> length (concat (map messages [ex_t1, ex_t2]))" by (simp add: ex_defs)
  have a10: "aiDetectRecurringPattern ?env (concat (map messages [ex_t1, ex_t2])) ex_ewr
               (oracle_rules ex_ewr) = Inr (Some (Some ''Newsletters''))"
    by (simp add: ex_env_def)
  have a11: "''Newsletters'' \<noteq> []" by simp
  have a12: "rule_findUnique ex_db ''Newsletters'' ''A'' \<noteq> None"
    by (simp add: ex_defs rule_findUnique_def)
  from keys a1 a2 a3 a4 a5 a6 a7 a8 a9 a10 a11 a12
  have q: "CallGetThreads (''from:'' @ ''news@example.com'' @ '' -label:sent -label:draft'')
             MAX_RESULTS \<in> set (snd (snd (POST ?env 9 ex_db True ?data)))"
    by blast
  have d: "fst (snd (process ?env 9 ex_db ''A'' ''news@example.com''))
           = ex_db_stored False \<lparr> newsletters := [ex_row 9] \<rparr>"
    by (simp add: ex_defs model_defs extractEmailAddress_spec_def)
  from q d show ?thesis by (simp add: post MAX_RESULTS_def)
qed


end
